theory Spec2Isabelle
  imports Complex_Main "HOL-Library.Word"
begin

section \<open>Data model\<close>

text \<open>
  \<^verbatim>\<open>typedef std::array<int, 4> DigitCombination;\<close>
  A fixed-size array of four ints. The program only ever compares the elements for
  equality, so the 32-bit range of the elements plays no role and they are modelled as
  \<open>int\<close>. The subscript operator is \<open>digit_at\<close>; the program only subscripts with the loop
  indices 0 to 3.
\<close>

datatype DigitCombination = DigitCombination int int int int

fun digit_at :: "DigitCombination \<Rightarrow> nat \<Rightarrow> int" where
  "digit_at (DigitCombination a b c d) i =
     (if i = 0 then a else if i = 1 then b else if i = 2 then c else d)"

type_synonym CombinationList = "DigitCombination list"

text \<open>
  \<^verbatim>\<open>struct Score { int right_position; int wrong_position; ... }\<close>
  The default constructor sets both fields to 0 and \<open>operator==\<close> compares both fields,
  which is the equality of the record. The fields are incremented at most four times
  starting from 0, so they never overflow and are modelled as \<open>int\<close>.
\<close>

record Score =
  right_position :: int
  wrong_position :: int

definition Score0 :: Score where
  "Score0 = \<lparr>right_position = 0, wrong_position = 0\<rparr>"

text \<open>
  What the program can run into without handling it: \<open>UndefinedBehaviour\<close> is a read
  outside a string or a vector, \<open>BadAlloc\<close> is the exception of a vector that cannot grow
  (\<open>std::length_error\<close> at \<open>max_size()\<close>, \<open>std::bad_alloc\<close> when memory runs out before);
  the program catches no exception.
\<close>

datatype error = UndefinedBehaviour | BadAlloc

section \<open>calculateScore\<close>

text \<open>
  The inner loop of \<open>calculateScore\<close>: \<open>for (int j = 0; j < 4; j++)\<close>, which increments
  \<open>wrong_position\<close> and breaks at the first \<open>j\<close> with \<open>guess[i] == code[j]\<close>.
\<close>

function inner_loop ::
  "DigitCombination \<Rightarrow> DigitCombination \<Rightarrow> nat \<Rightarrow> nat \<Rightarrow> Score \<Rightarrow> Score" where
  "inner_loop guess code i j score =
     (if j < 4 then
        (if digit_at guess i = digit_at code j
         then score\<lparr>wrong_position := wrong_position score + 1\<rparr>
         else inner_loop guess code i (j + 1) score)
      else score)"
  by pat_completeness auto
termination
  by (relation "measure (\<lambda>(guess, code, i, j, score). 4 - j)") auto

text \<open>The outer loop: \<open>for (int i = 0; i < 4; i++)\<close>.\<close>

function outer_loop ::
  "DigitCombination \<Rightarrow> DigitCombination \<Rightarrow> nat \<Rightarrow> Score \<Rightarrow> Score" where
  "outer_loop guess code i score =
     (if i < 4 then
        outer_loop guess code (i + 1)
          (if digit_at guess i = digit_at code i
           then score\<lparr>right_position := right_position score + 1\<rparr>
           else inner_loop guess code i 0 score)
      else score)"
  by pat_completeness auto
termination
  by (relation "measure (\<lambda>(guess, code, i, score). 4 - i)") auto

definition calculateScore :: "DigitCombination \<Rightarrow> DigitCombination \<Rightarrow> Score" where
  "calculateScore guess code = outer_loop guess code 0 Score0"

declare inner_loop.simps [simp del] outer_loop.simps [simp del]

section \<open>filterCombinations\<close>

text \<open>
  \<open>vector::erase(it)\<close> removes the element at the iterator and returns an iterator to the
  element that followed it, that is, the same index in the shortened vector.
\<close>

definition erase :: "'a list \<Rightarrow> nat \<Rightarrow> 'a list" where
  "erase xs it = take it xs @ drop (Suc it) xs"

text \<open>
  The loop of \<open>filterCombinations\<close>. The iterator is the index \<open>it\<close> into the vector; it
  starts at \<open>begin()\<close> and only moves by one while it is not \<open>end()\<close>, so it stays in
  \<open>[begin(), end()]\<close> and \<open>it != end()\<close> is \<open>it < length allCombinations\<close>.
\<close>

function filter_loop ::
  "CombinationList \<Rightarrow> nat \<Rightarrow> DigitCombination \<Rightarrow> Score \<Rightarrow> CombinationList" where
  "filter_loop allCombinations it guess score =
     (if it < length allCombinations then
        (if calculateScore guess (allCombinations ! it) = score
         then filter_loop allCombinations (it + 1) guess score
         else filter_loop (erase allCombinations it) it guess score)
      else allCombinations)"
  by pat_completeness auto
termination
  by (relation "measure (\<lambda>(cs, it, guess, score). length cs - it)") (auto simp: erase_def)

declare filter_loop.simps [simp del]

definition filterCombinations ::
  "CombinationList \<Rightarrow> DigitCombination \<Rightarrow> Score \<Rightarrow> CombinationList" where
  "filterCombinations allCombinations guess score = filter_loop allCombinations 0 guess score"

section \<open>The computer as guesser\<close>

text \<open>
  \<open>performComputerMove\<close>: the guess is the combination drawn by
  \<open>selectRandomCombination\<close> and the reply is what the user types. Both are inputs of
  the model: \<open>guess\<close> is the drawn combination and \<open>reply\<close> holds the two numbers read
  from the user (\<open>wrong_position\<close> is only read, and the list only filtered, when
  \<open>right_position\<close> is not 4). The result is the returned flag and the updated list.
\<close>

definition performComputerMove ::
  "CombinationList \<Rightarrow> DigitCombination \<Rightarrow> Score \<Rightarrow> bool \<times> CombinationList" where
  "performComputerMove combinations guess reply =
     (if right_position reply = 4 then (True, combinations)
      else (False, filterCombinations combinations guess reply))"

text \<open>
  \<open>computerPlayer\<close> prints one of two messages and returns; \<open>AwaitingInput\<close> is the state of
  the loop when the scripted turns are used up and the program waits for the next reply.
\<close>

datatype outcome = CodeGuessed | InputError | AwaitingInput

fun computerPlayer ::
  "CombinationList \<Rightarrow> (DigitCombination \<times> Score) list \<Rightarrow> outcome \<times> CombinationList" where
  "computerPlayer combinations [] = (AwaitingInput, combinations)"
| "computerPlayer combinations ((guess, reply) # turns) =
     (case performComputerMove combinations guess reply of
        (codeGuessed, combinations') \<Rightarrow>
          if combinations' = [] \<and> \<not> codeGuessed then (InputError, combinations')
          else if \<not> codeGuessed then computerPlayer combinations' turns
          else (CodeGuessed, combinations'))"

section \<open>generateAllCombinations\<close>

text \<open>
  The result is a \<open>std::vector\<close>, which cannot hold arbitrarily many elements.
  \<open>capacity\<close> is the number of elements the vector can grow to in the run at hand: at
  most \<open>max_size()\<close>, which is below \<open>2^64\<close>, and less when memory runs out before.
  \<open>push_back\<close> appends at the end, or throws when the vector cannot grow.
\<close>

definition push_back :: "nat \<Rightarrow> 'a list \<Rightarrow> 'a \<Rightarrow> error + 'a list" where
  "push_back capacity v x = (if length v < capacity then Inr (v @ [x]) else Inl BadAlloc)"

text \<open>
  A loop \<open>for (int i = 0; i < level; i++)\<close> runs its body for the given values of the
  loop variable, in order, and is left by the first exception.
\<close>

fun for_loop :: "(int \<Rightarrow> 's \<Rightarrow> error + 's) \<Rightarrow> int list \<Rightarrow> 's \<Rightarrow> error + 's" where
  "for_loop body [] s = Inr s"
| "for_loop body (i # rest) s =
     (case body i s of Inl e \<Rightarrow> Inl e | Inr s' \<Rightarrow> for_loop body rest s')"

text \<open>
  The four nested loops, from the innermost to the outermost. Each runs its variable
  over \<open>0, ..., level - 1\<close> (no iteration when \<open>level \<le> 0\<close>) and passes the vector on. The
  loop variables stay below \<open>level\<close>, so no int arithmetic overflows and \<open>level\<close> is
  modelled as \<open>int\<close>.
\<close>

definition loop_l ::
  "nat \<Rightarrow> int \<Rightarrow> int \<Rightarrow> int \<Rightarrow> int \<Rightarrow> CombinationList \<Rightarrow> error + CombinationList" where
  "loop_l capacity level i j k allCombinations =
     for_loop (\<lambda>l allCombinations.
                 if i \<noteq> j \<and> i \<noteq> k \<and> i \<noteq> l \<and> j \<noteq> k \<and> j \<noteq> l \<and> k \<noteq> l
                 then push_back capacity allCombinations (DigitCombination i j k l)
                 else Inr allCombinations)
              [0..level - 1] allCombinations"

definition loop_k ::
  "nat \<Rightarrow> int \<Rightarrow> int \<Rightarrow> int \<Rightarrow> CombinationList \<Rightarrow> error + CombinationList" where
  "loop_k capacity level i j allCombinations =
     for_loop (loop_l capacity level i j) [0..level - 1] allCombinations"

definition loop_j ::
  "nat \<Rightarrow> int \<Rightarrow> int \<Rightarrow> CombinationList \<Rightarrow> error + CombinationList" where
  "loop_j capacity level i allCombinations =
     for_loop (loop_k capacity level i) [0..level - 1] allCombinations"

definition generateAllCombinations :: "nat \<Rightarrow> int \<Rightarrow> error + CombinationList" where
  "generateAllCombinations capacity level = for_loop (loop_j capacity level) [0..level - 1] []"

text \<open>
  The lists that the loops append when nothing is thrown, and the result of appending
  a list to a vector of the given capacity.
\<close>

definition combinations_l :: "int \<Rightarrow> int \<Rightarrow> int \<Rightarrow> int \<Rightarrow> CombinationList" where
  "combinations_l level i j k =
     concat (map (\<lambda>l. if i \<noteq> j \<and> i \<noteq> k \<and> i \<noteq> l \<and> j \<noteq> k \<and> j \<noteq> l \<and> k \<noteq> l
                       then [DigitCombination i j k l] else [])
               [0..level - 1])"

definition combinations_k :: "int \<Rightarrow> int \<Rightarrow> int \<Rightarrow> CombinationList" where
  "combinations_k level i j = concat (map (combinations_l level i j) [0..level - 1])"

definition combinations_j :: "int \<Rightarrow> int \<Rightarrow> CombinationList" where
  "combinations_j level i = concat (map (combinations_k level i) [0..level - 1])"

definition all_combinations :: "int \<Rightarrow> CombinationList" where
  "all_combinations level = concat (map (combinations_j level) [0..level - 1])"

definition fits :: "nat \<Rightarrow> 'a list \<Rightarrow> error + 'a list" where
  "fits capacity xs = (if length xs \<le> capacity then Inr xs else Inl BadAlloc)"

text \<open>
  The combinations of the data model for a level: four digits, each in
  \<open>[0, level - 1]\<close>, all distinct.
\<close>

fun valid_combination :: "int \<Rightarrow> DigitCombination \<Rightarrow> bool" where
  "valid_combination level (DigitCombination a b c d) \<longleftrightarrow>
     0 \<le> a \<and> a \<le> level - 1 \<and> 0 \<le> b \<and> b \<le> level - 1 \<and>
     0 \<le> c \<and> c \<le> level - 1 \<and> 0 \<le> d \<and> d \<le> level - 1 \<and> distinct [a, b, c, d]"

fun digits :: "DigitCombination \<Rightarrow> int list" where
  "digits (DigitCombination a b c d) = [a, b, c, d]"

section \<open>Standard input\<close>

text \<open>
  \<open>std::cin\<close> is not code of the program; it is modelled after the C++ standard library
  as far as the program uses it. The state of the stream is the text that is still to
  be read and the two state flags the program can observe. The text is finite: when
  it is used up, the stream is at end of file.
\<close>

record istream =
  buffer :: string
  failbit :: bool
  eofbit :: bool

abbreviation newline :: char where
  "newline \<equiv> CHR 0x0A"

text \<open>The stream at program start when the user enters the given lines.\<close>

definition stdin :: "string list \<Rightarrow> istream" where
  "stdin entered = \<lparr>buffer = concat (map (\<lambda>line. line @ [newline]) entered),
                    failbit = False, eofbit = False\<rparr>"

definition good :: "istream \<Rightarrow> bool" where
  "good cin \<longleftrightarrow> \<not> failbit cin \<and> \<not> eofbit cin"

definition fail :: "istream \<Rightarrow> bool" where
  "fail cin \<longleftrightarrow> failbit cin"

definition clear :: "istream \<Rightarrow> istream" where
  "clear cin = cin\<lparr>failbit := False, eofbit := False\<rparr>"

text \<open>
  \<open>cin.ignore(std::numeric_limits<std::streamsize>::max(), '\n')\<close> discards the text up
  to and including the next newline; reaching the end of the text sets \<open>eofbit\<close>.
\<close>

definition ignore_line :: "istream \<Rightarrow> istream" where
  "ignore_line cin =
     (if \<not> good cin then cin\<lparr>failbit := True\<rparr>
      else case dropWhile (\<lambda>c. c \<noteq> newline) (buffer cin) of
             [] \<Rightarrow> cin\<lparr>buffer := [], eofbit := True\<rparr>
           | c # rest \<Rightarrow> cin\<lparr>buffer := rest\<rparr>)"

definition isspace :: "char \<Rightarrow> bool" where
  "isspace c \<longleftrightarrow> c \<in> set [CHR '' '', CHR 0x09, CHR 0x0A, CHR 0x0B, CHR 0x0C, CHR 0x0D]"

definition isdigit :: "char \<Rightarrow> bool" where
  "isdigit c \<longleftrightarrow> 48 \<le> (of_char c :: nat) \<and> (of_char c :: nat) \<le> 57"

fun decimal :: "string \<Rightarrow> int \<Rightarrow> int" where
  "decimal [] acc = acc"
| "decimal (c # cs) acc = decimal cs (10 * acc + (of_char c - 48))"

text \<open>
  \<open>std::cin >> n\<close> for an \<open>int n\<close>; the second argument is the value of \<open>n\<close> before the
  call. A stream that is not good only gets \<open>failbit\<close> and leaves \<open>n\<close> alone, and so does
  one that ends while white space is skipped. Otherwise an optional sign and the
  decimal digits are read: without a digit the extraction fails and stores 0, a value
  outside the 32-bit range fails and stores the nearest bound.
\<close>

definition extract_int :: "istream \<Rightarrow> int \<Rightarrow> istream \<times> int" where
  "extract_int cin n =
     (if \<not> good cin then (cin\<lparr>failbit := True\<rparr>, n)
      else
        let rest = dropWhile isspace (buffer cin) in
        if rest = [] then (cin\<lparr>buffer := [], failbit := True, eofbit := True\<rparr>, n)
        else
          let negative = (hd rest = CHR ''-'');
              number = (if hd rest = CHR ''-'' \<or> hd rest = CHR ''+'' then tl rest else rest);
              ds = takeWhile isdigit number;
              after = dropWhile isdigit number;
              cin' = cin\<lparr>buffer := after, eofbit := (after = [])\<rparr>;
              v = (if negative then - decimal ds 0 else decimal ds 0)
          in if ds = [] then (cin'\<lparr>failbit := True\<rparr>, 0)
             else if v < - 2147483648 then (cin'\<lparr>failbit := True\<rparr>, - 2147483648)
             else if 2147483647 < v then (cin'\<lparr>failbit := True\<rparr>, 2147483647)
             else (cin', v))"

text \<open>
  \<open>std::cin >> input\<close> for a \<open>std::string input\<close> that is empty before the call: the
  next word, up to the following white space.
\<close>

definition extract_string :: "istream \<Rightarrow> istream \<times> string" where
  "extract_string cin =
     (if \<not> good cin then (cin\<lparr>failbit := True\<rparr>, [])
      else
        let rest = dropWhile isspace (buffer cin) in
        if rest = [] then (cin\<lparr>buffer := [], failbit := True, eofbit := True\<rparr>, [])
        else
          let after = dropWhile (\<lambda>c. \<not> isspace c) rest
          in (cin\<lparr>buffer := after, eofbit := (after = [])\<rparr>,
              takeWhile (\<lambda>c. \<not> isspace c) rest))"

section \<open>getDifficultyLevel\<close>

text \<open>
  The loop \<open>while (std::cin.fail() || level < 4 || level > 10)\<close> may run forever (it does
  at end of file), so it is a partial function: \<open>None\<close> means that it does not return.
  The result is the returned level and the stream as the function leaves it.
\<close>

partial_function (option) getDifficultyLevel_loop ::
  "istream \<Rightarrow> int \<Rightarrow> (int \<times> istream) option" where
  "getDifficultyLevel_loop cin level =
     (if fail cin \<or> level < 4 \<or> level > 10 then
        (case extract_int (ignore_line (clear cin)) level of
           (cin', level') \<Rightarrow> getDifficultyLevel_loop cin' level')
      else Some (level, cin))"

definition getDifficultyLevel :: "istream \<Rightarrow> (int \<times> istream) option" where
  "getDifficultyLevel cin =
     (case extract_int cin 0 of (cin', level) \<Rightarrow> getDifficultyLevel_loop cin' level)"

section \<open>menu\<close>

text \<open>
  \<open>do { std::cin >> choice; } while (choice > 2)\<close>. The variable \<open>choice\<close> is not
  initialised; its value before the first extraction is the second argument.
\<close>

partial_function (option) menu :: "istream \<Rightarrow> int \<Rightarrow> (int \<times> istream) option" where
  "menu cin choice =
     (case extract_int cin choice of
        (cin', choice') \<Rightarrow> if choice' > 2 then menu cin' choice' else Some (choice', cin'))"

section \<open>selectRandomCombination\<close>

text \<open>
  \<open>CombinationList::size_type\<close> is an unsigned 64-bit integer, so \<open>combinations.size() - 1\<close>
  wraps around for an empty vector.
\<close>

type_synonym size_type = "64 word"

text \<open>
  \<open>std::uniform_int_distribution<size_type> dis(a, b)\<close> is not code of the program
  either. After the C++ standard, \<open>dis(gen)\<close> produces a value \<open>d\<close> with \<open>a \<le> d \<le> b\<close>,
  each with probability \<open>1 / (b - a + 1)\<close>; \<open>uniform_int_distribution a b d\<close> is the
  probability of the value \<open>d\<close>.
\<close>

definition uniform_int_distribution :: "size_type \<Rightarrow> size_type \<Rightarrow> size_type \<Rightarrow> real" where
  "uniform_int_distribution a b d =
     (if a \<le> d \<and> d \<le> b then 1 / (real (unat b - unat a) + 1) else 0)"

text \<open>The distribution object that \<open>selectRandomCombination\<close> constructs.\<close>

definition dis :: "CombinationList \<Rightarrow> size_type \<Rightarrow> real" where
  "dis combinations = uniform_int_distribution 0 (of_nat (length combinations) - 1)"

text \<open>
  \<open>operator[]\<close> of a vector does not check its index; reading outside the vector is
  undefined and is \<open>None\<close> here.
\<close>

definition subscript :: "'a list \<Rightarrow> size_type \<Rightarrow> 'a option" where
  "subscript xs n = (if unat n < length xs then Some (xs ! unat n) else None)"

text \<open>
  \<open>return combinations[dis(gen)]\<close>, where \<open>drawn\<close> is the value of \<open>dis(gen)\<close>; it
  occurs with probability \<open>dis combinations drawn\<close>.
\<close>

definition selectRandomCombination ::
  "CombinationList \<Rightarrow> size_type \<Rightarrow> DigitCombination option" where
  "selectRandomCombination combinations drawn = subscript combinations drawn"

section \<open>humanPlayer\<close>

text \<open>
  \<open>input[i] - '0'\<close>: the character is promoted to \<open>int\<close> (plain \<open>char\<close> is signed on the
  usual targets). \<open>input[i]\<close> is the null character for \<open>i = input.size()\<close> and undefined
  beyond.
\<close>

definition char_value :: "char \<Rightarrow> int" where
  "char_value c = (if (of_char c :: nat) < 128 then of_char c else of_char c - 256)"

definition string_at :: "string \<Rightarrow> nat \<Rightarrow> error + int" where
  "string_at input i =
     (if i < length input then Inr (char_value (input ! i))
      else if i = length input then Inr 0
      else Inl UndefinedBehaviour)"

fun set_at :: "DigitCombination \<Rightarrow> nat \<Rightarrow> int \<Rightarrow> DigitCombination" where
  "set_at (DigitCombination a b c d) i v =
     (if i = 0 then DigitCombination v b c d
      else if i = 1 then DigitCombination a v c d
      else if i = 2 then DigitCombination a b v d
      else DigitCombination a b c v)"

text \<open>
  The loop \<open>for (int i = 0; i < 4; ++i) playerGuess[i] = input[i] - '0'\<close>. The array
  \<open>playerGuess\<close> is not initialised, and every element is assigned before it is read;
  the model starts from zeros.
\<close>

fun convert_loop :: "string \<Rightarrow> nat list \<Rightarrow> DigitCombination \<Rightarrow> error + DigitCombination" where
  "convert_loop input [] playerGuess = Inr playerGuess"
| "convert_loop input (i # rest) playerGuess =
     (case string_at input i of
        Inl e \<Rightarrow> Inl e
      | Inr ch \<Rightarrow> convert_loop input rest (set_at playerGuess i (ch - 48)))"

definition convert :: "string \<Rightarrow> error + DigitCombination" where
  "convert input = convert_loop input [0..<4] (DigitCombination 0 0 0 0)"

text \<open>
  The loop \<open>do { ... } while (score.right_position < 4)\<close>. It may run forever, so it is
  a partial function. \<open>shown\<close> collects the guesses with the scores printed for them.
\<close>

partial_function (option) humanPlayer_loop ::
  "DigitCombination \<Rightarrow> istream \<Rightarrow> (DigitCombination \<times> Score) list
     \<Rightarrow> (error + (DigitCombination \<times> Score) list \<times> istream) option" where
  "humanPlayer_loop secretCode cin shown =
     (case extract_string cin of
        (cin', input) \<Rightarrow>
          (case convert input of
             Inl e \<Rightarrow> Some (Inl e)
           | Inr playerGuess \<Rightarrow>
               let score = calculateScore playerGuess secretCode;
                   shown' = shown @ [(playerGuess, score)]
               in if right_position score < 4
                  then humanPlayer_loop secretCode cin' shown'
                  else Some (Inr (shown', cin'))))"

text \<open>
  \<open>level\<close> only appears in the prompt. \<open>drawn\<close> is the value drawn when the secret is
  selected.
\<close>

definition humanPlayer ::
  "int \<Rightarrow> CombinationList \<Rightarrow> size_type \<Rightarrow> istream
     \<Rightarrow> (error + (DigitCombination \<times> Score) list \<times> istream) option" where
  "humanPlayer level combinations drawn cin =
     (case selectRandomCombination combinations drawn of
        None \<Rightarrow> Some (Inl UndefinedBehaviour)
      | Some secretCode \<Rightarrow> humanPlayer_loop secretCode cin [])"

declare getDifficultyLevel_loop.simps [code] menu.simps [code] humanPlayer_loop.simps [code]

section \<open>Re-prompting\<close>

text \<open>
  The condition and the body of the loop of \<open>getDifficultyLevel\<close> on the pair of the
  stream and the level: an entry is rejected when the extraction failed or the level is
  out of range, and the re-prompt clears the flags, drops the rest of the line and
  extracts again.
\<close>

definition rejected :: "istream \<times> int \<Rightarrow> bool" where
  "rejected s \<longleftrightarrow> fail (fst s) \<or> snd s < 4 \<or> snd s > 10"

definition reprompt :: "istream \<times> int \<Rightarrow> istream \<times> int" where
  "reprompt s = extract_int (ignore_line (clear (fst s))) (snd s)"

section \<open>Reference scoring\<close>

text \<open>
  The data model asks the digits of a combination to be all distinct.
\<close>

fun distinct_digits :: "DigitCombination \<Rightarrow> bool" where
  "distinct_digits (DigitCombination a b c d) = distinct [a, b, c, d]"

text \<open>
  The reference score follows the wording of the specification, not the code. First
  the positions where guess and code agree are counted; they are the matched positions.
  Then the remaining positions of the guess are visited in order: a guess digit counts
  as a value match if it occurs in the code at a position that is not matched yet, and
  that position of the code becomes matched too, so that it is not used again.
\<close>

definition positional_matches :: "DigitCombination \<Rightarrow> DigitCombination \<Rightarrow> nat list" where
  "positional_matches guess code = filter (\<lambda>i. digit_at guess i = digit_at code i) [0..<4]"

fun value_matches ::
  "DigitCombination \<Rightarrow> DigitCombination \<Rightarrow> nat list \<Rightarrow> nat list \<Rightarrow> nat" where
  "value_matches guess code [] matched = 0"
| "value_matches guess code (i # rest) matched =
     (case find (\<lambda>j. j \<notin> set matched \<and> digit_at code j = digit_at guess i) [0..<4] of
        None \<Rightarrow> value_matches guess code rest matched
      | Some j \<Rightarrow> 1 + value_matches guess code rest (j # matched))"

definition reference_score :: "DigitCombination \<Rightarrow> DigitCombination \<Rightarrow> Score" where
  "reference_score guess code =
     (let matched = positional_matches guess code in
      \<lparr>right_position = int (length matched),
       wrong_position =
         int (value_matches guess code (filter (\<lambda>i. i \<notin> set matched) [0..<4]) matched)\<rparr>)"

section \<open>Properties of the scoring loops\<close>

text \<open>
  Position \<open>i\<close> of the guess is a \<open>hit\<close> when it agrees with the code at \<open>i\<close>, and its
  digit is \<open>present\<close> when it occurs anywhere in the code.
\<close>

definition hit :: "DigitCombination \<Rightarrow> DigitCombination \<Rightarrow> nat \<Rightarrow> bool" where
  "hit guess code i \<longleftrightarrow> digit_at guess i = digit_at code i"

definition present :: "DigitCombination \<Rightarrow> DigitCombination \<Rightarrow> nat \<Rightarrow> bool" where
  "present guess code i \<longleftrightarrow> digit_at guess i \<in> {digit_at code 0, digit_at code 1, digit_at code 2, digit_at code 3}"

lemma below_4: "(k::nat) < 4 \<longleftrightarrow> k = 0 \<or> k = 1 \<or> k = 2 \<or> k = 3"
  by auto

lemma upt_0_4: "[0..<4] = [0, 1, 2, 3]"
  by code_simp

lemma inner_loop_from:
  "inner_loop g c i j s =
     (if \<exists>k. j \<le> k \<and> k < 4 \<and> digit_at g i = digit_at c k
      then s\<lparr>wrong_position := wrong_position s + 1\<rparr> else s)"
proof (induction g c i j s rule: inner_loop.induct)
  case (1 guess code i j score)
  show ?case
  proof (cases "j < 4")
    case False
    then show ?thesis by (subst inner_loop.simps) auto
  next
    case j: True
    show ?thesis
    proof (cases "digit_at guess i = digit_at code j")
      case True
      with j show ?thesis by (subst inner_loop.simps) auto
    next
      case False
      have "(\<exists>k. j \<le> k \<and> k < 4 \<and> digit_at guess i = digit_at code k)
            \<longleftrightarrow> (\<exists>k. j + 1 \<le> k \<and> k < 4 \<and> digit_at guess i = digit_at code k)"
        using False by (metis Suc_eq_plus1 Suc_leI le_neq_implies_less Suc_leD)
      with 1 [OF j False] j False show ?thesis
        by (subst inner_loop.simps) simp
    qed
  qed
qed

lemma inner_loop_0:
  "inner_loop g c i 0 s =
     (if present g c i then s\<lparr>wrong_position := wrong_position s + 1\<rparr> else s)"
proof -
  have "(\<exists>k. 0 \<le> k \<and> k < 4 \<and> digit_at g i = digit_at c k) \<longleftrightarrow> present g c i"
    unfolding present_def below_4 by auto
  then show ?thesis by (simp only: inner_loop_from)
qed

text \<open>
  The outer loop started at \<open>i\<close> adds the number of hits among the positions from \<open>i\<close> on
  to \<open>right_position\<close>, and the number of non-hit positions whose digit is present to
  \<open>wrong_position\<close>.
\<close>

lemma outer_loop_from:
  "outer_loop g c i s =
     s\<lparr>right_position := right_position s + int (length (filter (hit g c) [i..<4])),
       wrong_position := wrong_position s
          + int (length (filter (\<lambda>k. \<not> hit g c k \<and> present g c k) [i..<4]))\<rparr>"
proof (induction g c i s rule: outer_loop.induct)
  case (1 guess code i score)
  show ?case
  proof (cases "i < 4")
    case False
    then show ?thesis by (subst outer_loop.simps) simp
  next
    case True
    then have upt: "[i..<4] = i # [i + 1..<4]"
      by (simp add: upt_conv_Cons)
    show ?thesis
      using True 1 [OF True]
      by (subst outer_loop.simps) (simp add: upt inner_loop_0 hit_def [symmetric])
  qed
qed

lemma calculateScore_eq:
  "calculateScore g c =
     \<lparr>right_position = int (length (filter (hit g c) [0..<4])),
      wrong_position = int (length (filter (\<lambda>k. \<not> hit g c k \<and> present g c k) [0..<4]))\<rparr>"
  by (simp add: calculateScore_def outer_loop_from Score0_def)

lemma length_filter_split:
  "length (filter P xs) + length (filter (\<lambda>k. \<not> P k \<and> Q k) xs) \<le> length xs"
  by (induction xs) auto

lemma length_filter_full:
  "length (filter P xs) = length xs \<longleftrightarrow> (\<forall>x\<in>set xs. P x)"
proof (induction xs)
  case Nil
  show ?case by simp
next
  case (Cons x xs)
  show ?case
  proof (cases "P x")
    case True
    with Cons show ?thesis by simp
  next
    case False
    have "length (filter P xs) \<le> length xs" by (rule length_filter_le)
    then have "length (filter P xs) \<noteq> Suc (length xs)" by linarith
    with False show ?thesis by simp
  qed
qed

lemma all_hit_iff: "(\<forall>k \<in> set [0..<4]. hit g c k) \<longleftrightarrow> g = c"
  by (cases g; cases c) (auto simp: hit_def upt_0_4)

lemma right_position_4_iff: "right_position (calculateScore g c) = 4 \<longleftrightarrow> g = c"
proof -
  have "right_position (calculateScore g c) = 4
        \<longleftrightarrow> length (filter (hit g c) [0..<4]) = length [0..<4]"
    by (simp add: calculateScore_eq)
  also have "\<dots> \<longleftrightarrow> (\<forall>k \<in> set [0..<4]. hit g c k)"
    by (rule length_filter_full)
  finally show ?thesis by (simp only: all_hit_iff)
qed

lemma right_position_le_4: "right_position (calculateScore g c) \<le> 4"
  using length_filter_le [of "hit g c" "[0..<4]"] by (simp add: calculateScore_eq)

lemma find_SomeD: "find P xs = Some x \<Longrightarrow> P x \<and> x \<in> set xs"
  by (induction xs) (auto split: if_splits)

lemma present_iff: "present g c i \<longleftrightarrow> (\<exists>j<4. digit_at c j = digit_at g i)"
proof -
  have "(\<exists>j<4. digit_at c j = digit_at g i)
        \<longleftrightarrow> (\<exists>j. (j = 0 \<or> j = 1 \<or> j = 2 \<or> j = 3) \<and> digit_at c j = digit_at g i)"
    by (simp only: below_4)
  also have "\<dots> \<longleftrightarrow> digit_at c 0 = digit_at g i \<or> digit_at c 1 = digit_at g i \<or> digit_at c 2 = digit_at g i \<or> digit_at c 3 = digit_at g i"
    by blast
  also have "\<dots> \<longleftrightarrow> present g c i"
    unfolding present_def by (simp add: eq_commute)
  finally show ?thesis by simp
qed

lemma distinct_digits_inj:
  assumes "distinct_digits g" and "i < 4" and "j < 4" and "digit_at g i = digit_at g j"
  shows "i = j"
proof (cases g)
  case (DigitCombination a b c d)
  from assms(2) have i: "i = 0 \<or> i = 1 \<or> i = 2 \<or> i = 3" by (simp only: below_4)
  from assms(3) have j: "j = 0 \<or> j = 1 \<or> j = 2 \<or> j = 3" by (simp only: below_4)
  from assms(1) have d: "a \<noteq> b" "a \<noteq> c" "a \<noteq> d" "b \<noteq> c" "b \<noteq> d" "c \<noteq> d"
    by (simp_all add: DigitCombination)
  from i j assms(4) d show ?thesis
    unfolding DigitCombination by (elim disjE) simp_all
qed

text \<open>
  With distinct guess digits, no code position that a remaining guess digit could use
  is ever taken by another one, so the reference count of value matches is the number
  of remaining positions whose digit is present in the code.
\<close>

lemma value_matches_count:
  assumes "distinct_digits g"
    and "set ps \<subseteq> {0..<4}" and "distinct ps"
    and "\<forall>i \<in> set ps. \<forall>j<4. digit_at c j = digit_at g i \<longrightarrow> j \<notin> set used"
  shows "value_matches g c ps used = length (filter (present g c) ps)"
  using assms(2-)
proof (induction ps arbitrary: used)
  case Nil
  show ?case by simp
next
  case (Cons i ps)
  from Cons.prems have i4: "i < 4" and sub: "set ps \<subseteq> {0..<4}"
    and dist: "distinct ps" and inotin: "i \<notin> set ps" by auto
  show ?case
  proof (cases "find (\<lambda>j. j \<notin> set used \<and> digit_at c j = digit_at g i) [0..<4]")
    case None
    then have np: "\<not> present g c i"
      using Cons.prems(3) by (auto simp: find_None_iff present_iff)
    have "\<forall>i \<in> set ps. \<forall>j<4. digit_at c j = digit_at g i \<longrightarrow> j \<notin> set used"
      using Cons.prems(3) by simp
    from Cons.IH [OF sub dist this] None np show ?thesis by simp
  next
    case (Some j)
    from find_SomeD [OF Some] have j4: "j < 4" and cj: "digit_at c j = digit_at g i" by auto
    then have p: "present g c i" by (auto simp: present_iff)
    have "\<forall>i' \<in> set ps. \<forall>j'<4. digit_at c j' = digit_at g i' \<longrightarrow> j' \<notin> set (j # used)"
    proof (intro ballI allI impI)
      fix i' j' assume i': "i' \<in> set ps" and j': "j' < 4" and eq: "digit_at c j' = digit_at g i'"
      from i' sub have i'4: "i' < 4" by auto
      from i' inotin have "i' \<noteq> i" by auto
      with distinct_digits_inj [OF assms(1) i'4 i4] have "digit_at g i' \<noteq> digit_at g i" by auto
      with eq cj have "j' \<noteq> j" by auto
      moreover from Cons.prems(3) i' j' eq have "j' \<notin> set used" by simp
      ultimately show "j' \<notin> set (j # used)" by simp
    qed
    from Cons.IH [OF sub dist this] Some p show ?thesis by simp
  qed
qed

lemma reference_score_eq:
  assumes "distinct_digits guess"
  shows "reference_score guess code = calculateScore guess code"
proof -
  let ?m = "positional_matches guess code"
  let ?rest = "filter (\<lambda>i. i \<notin> set ?m) [0..<4]"
  have rest: "?rest = filter (\<lambda>i. \<not> hit guess code i) [0..<4]"
    by (rule filter_cong) (auto simp: positional_matches_def hit_def)
  have free: "\<forall>i \<in> set ?rest. \<forall>j<4. digit_at code j = digit_at guess i \<longrightarrow> j \<notin> set ?m"
  proof (intro ballI allI impI)
    fix i j assume i: "i \<in> set ?rest" and j: "j < 4" and eq: "digit_at code j = digit_at guess i"
    from i have i4: "i < 4" and nohit: "digit_at guess i \<noteq> digit_at code i"
      by (auto simp: positional_matches_def)
    show "j \<notin> set ?m"
    proof
      assume "j \<in> set ?m"
      then have "digit_at guess j = digit_at code j" by (simp add: positional_matches_def)
      with eq have "digit_at guess j = digit_at guess i" by simp
      with distinct_digits_inj [OF assms j i4] have "j = i" by simp
      with eq nohit show False by simp
    qed
  qed
  have "value_matches guess code ?rest ?m = length (filter (present guess code) ?rest)"
    by (rule value_matches_count [OF assms _ _ free]) auto
  also have "\<dots> = length (filter (\<lambda>k. \<not> hit guess code k \<and> present guess code k) [0..<4])"
    by (simp add: rest conj_commute)
  finally have w: "value_matches guess code ?rest ?m
      = length (filter (\<lambda>k. \<not> hit guess code k \<and> present guess code k) [0..<4])" .
  have r: "length ?m = length (filter (hit guess code) [0..<4])"
    by (simp add: positional_matches_def hit_def [abs_def])
  show ?thesis
    unfolding calculateScore_eq reference_score_def Let_def w r ..
qed

section \<open>Properties of the filtering loop\<close>

text \<open>
  The loop started at index \<open>it\<close> keeps the elements before \<open>it\<close> and, of the others,
  those whose score against the guess is the given score.
\<close>

lemma filter_loop_from:
  "it \<le> length cs \<Longrightarrow>
   filter_loop cs it g s = take it cs @ filter (\<lambda>c. calculateScore g c = s) (drop it cs)"
proof (induction cs it g s rule: filter_loop.induct)
  case (1 cs it g s)
  show ?case
  proof (cases "it < length cs")
    case False
    with 1 show ?thesis by (subst filter_loop.simps) simp
  next
    case lt: True
    then have drop: "drop it cs = cs ! it # drop (Suc it) cs"
      by (simp add: Cons_nth_drop_Suc)
    show ?thesis
    proof (cases "calculateScore g (cs ! it) = s")
      case True
      have "filter_loop cs it g s = filter_loop cs (it + 1) g s"
        using lt True by (subst filter_loop.simps) simp
      also have "\<dots> = take (it + 1) cs
                      @ filter (\<lambda>c. calculateScore g c = s) (drop (it + 1) cs)"
        using 1(1) [OF lt True] lt by simp
      finally show ?thesis
        using lt True by (simp add: drop take_Suc_conv_app_nth)
    next
      case False
      have len: "it \<le> length (erase cs it)"
        using lt by (simp add: erase_def)
      have "filter_loop cs it g s = filter_loop (erase cs it) it g s"
        using lt False by (subst filter_loop.simps) simp
      also have "\<dots> = take it (erase cs it)
                      @ filter (\<lambda>c. calculateScore g c = s) (drop it (erase cs it))"
        using 1(2) [OF lt False len] .
      finally show ?thesis
        using lt False by (simp add: drop erase_def)
    qed
  qed
qed

lemma filterCombinations_eq:
  "filterCombinations cs g s = filter (\<lambda>c. calculateScore g c = s) cs"
  by (simp add: filterCombinations_def filter_loop_from)

section \<open>Properties of the generation loops\<close>

lemma distinct_concat_map:
  assumes "distinct xs"
    and "\<And>x. x \<in> set xs \<Longrightarrow> distinct (f x)"
    and "\<And>x y. x \<in> set xs \<Longrightarrow> y \<in> set xs \<Longrightarrow> x \<noteq> y \<Longrightarrow> set (f x) \<inter> set (f y) = {}"
  shows "distinct (concat (map f xs))"
  using assms
proof (induction xs)
  case Nil
  show ?case by simp
next
  case (Cons x xs)
  have "distinct (concat (map f xs))"
    by (rule Cons.IH) (use Cons.prems in auto)
  moreover have "distinct (f x)" using Cons.prems(2) by simp
  moreover have "set (f x) \<inter> set (f y) = {}" if "y \<in> set xs" for y
    using Cons.prems(1) Cons.prems(3) [of x y] that by auto
  ultimately show ?case by auto
qed

text \<open>
  A loop whose body appends a list, or throws when the result does not fit, appends
  the concatenation of these lists, or throws when that does not fit.
\<close>

lemma for_loop_fits:
  assumes body: "\<And>i acc. length acc \<le> capacity \<Longrightarrow> body i acc = fits capacity (acc @ f i)"
    and "length acc \<le> capacity"
  shows "for_loop body xs acc = fits capacity (acc @ concat (map f xs))"
  using assms(2)
proof (induction xs arbitrary: acc)
  case Nil
  then show ?case by (simp add: fits_def)
next
  case (Cons x xs)
  show ?case
  proof (cases "length (acc @ f x) \<le> capacity")
    case True
    with body [OF Cons.prems] have "body x acc = Inr (acc @ f x)" by (simp add: fits_def)
    with Cons.IH [OF True] show ?thesis by simp
  next
    case False
    with body [OF Cons.prems] have "body x acc = Inl BadAlloc" by (simp add: fits_def)
    with False show ?thesis by (simp add: fits_def)
  qed
qed

lemma loop_l_fits:
  assumes "length acc \<le> capacity"
  shows "loop_l capacity level i j k acc = fits capacity (acc @ combinations_l level i j k)"
  unfolding loop_l_def combinations_l_def
  by (rule for_loop_fits [OF _ assms]) (auto simp: push_back_def fits_def)

lemma loop_k_fits:
  assumes "length acc \<le> capacity"
  shows "loop_k capacity level i j acc = fits capacity (acc @ combinations_k level i j)"
  unfolding loop_k_def combinations_k_def
  by (rule for_loop_fits [OF _ assms]) (rule loop_l_fits)

lemma loop_j_fits:
  assumes "length acc \<le> capacity"
  shows "loop_j capacity level i acc = fits capacity (acc @ combinations_j level i)"
  unfolding loop_j_def combinations_j_def
  by (rule for_loop_fits [OF _ assms]) (rule loop_k_fits)

lemma generateAllCombinations_fits:
  "generateAllCombinations capacity level = fits capacity (all_combinations level)"
proof -
  have "for_loop (loop_j capacity level) [0..level - 1] []
          = fits capacity ([] @ concat (map (combinations_j level) [0..level - 1]))"
    by (rule for_loop_fits) (rule loop_j_fits, simp_all)
  then show ?thesis by (simp add: generateAllCombinations_def all_combinations_def)
qed

lemma in_concat_map: "x \<in> set (concat (map f xs)) \<longleftrightarrow> (\<exists>y \<in> set xs. x \<in> set (f y))"
  by auto

lemma in_combinations_l:
  "x \<in> set (combinations_l level i j k) \<longleftrightarrow>
     (\<exists>l. 0 \<le> l \<and> l \<le> level - 1 \<and> distinct [i, j, k, l] \<and> x = DigitCombination i j k l)"
  unfolding combinations_l_def by (auto split: if_splits)

lemma in_combinations_k:
  "x \<in> set (combinations_k level i j) \<longleftrightarrow>
     (\<exists>k l. 0 \<le> k \<and> k \<le> level - 1 \<and> 0 \<le> l \<and> l \<le> level - 1
            \<and> distinct [i, j, k, l] \<and> x = DigitCombination i j k l)"
  unfolding combinations_k_def by (simp only: in_concat_map in_combinations_l Bex_def atLeastAtMost_iff set_upto) blast

lemma in_combinations_j:
  "x \<in> set (combinations_j level i) \<longleftrightarrow>
     (\<exists>j k l. 0 \<le> j \<and> j \<le> level - 1 \<and> 0 \<le> k \<and> k \<le> level - 1 \<and> 0 \<le> l \<and> l \<le> level - 1
            \<and> distinct [i, j, k, l] \<and> x = DigitCombination i j k l)"
  unfolding combinations_j_def by (simp only: in_concat_map in_combinations_k Bex_def atLeastAtMost_iff set_upto) blast

lemma in_all_combinations_digits:
  "x \<in> set (all_combinations level) \<longleftrightarrow>
     (\<exists>i j k l. 0 \<le> i \<and> i \<le> level - 1 \<and> 0 \<le> j \<and> j \<le> level - 1 \<and> 0 \<le> k \<and> k \<le> level - 1 \<and> 0 \<le> l \<and> l \<le> level - 1
            \<and> distinct [i, j, k, l] \<and> x = DigitCombination i j k l)"
  unfolding all_combinations_def by (simp only: in_concat_map in_combinations_j Bex_def atLeastAtMost_iff set_upto) blast

lemma in_all_combinations:
  "x \<in> set (all_combinations level) \<longleftrightarrow> valid_combination level x"
proof (cases x)
  case (DigitCombination a b c d)
  show ?thesis
    unfolding DigitCombination in_all_combinations_digits by (simp only: valid_combination.simps DigitCombination.inject) blast
qed

lemma distinct_combinations_l: "distinct (combinations_l level i j k)"
  unfolding combinations_l_def by (rule distinct_concat_map) auto

lemma distinct_combinations_k: "distinct (combinations_k level i j)"
  unfolding combinations_k_def
proof (rule distinct_concat_map)
  show "distinct [0..level - 1]" by simp
  show "distinct (combinations_l level i j k)" for k by (rule distinct_combinations_l)
  show "set (combinations_l level i j k) \<inter> set (combinations_l level i j k') = {}" if "k \<noteq> k'" for k k'
    using that by (auto simp: in_combinations_l)
qed

lemma distinct_combinations_j: "distinct (combinations_j level i)"
  unfolding combinations_j_def
proof (rule distinct_concat_map)
  show "distinct [0..level - 1]" by simp
  show "distinct (combinations_k level i j)" for j by (rule distinct_combinations_k)
  show "set (combinations_k level i j) \<inter> set (combinations_k level i j') = {}" if "j \<noteq> j'" for j j'
    using that by (auto simp: in_combinations_k)
qed

lemma distinct_all_combinations: "distinct (all_combinations level)"
  unfolding all_combinations_def
proof (rule distinct_concat_map)
  show "distinct [0..level - 1]" by simp
  show "distinct (combinations_j level i)" for i by (rule distinct_combinations_j)
  show "set (combinations_j level i) \<inter> set (combinations_j level i') = {}" if "i \<noteq> i'" for i i'
    using that by (auto simp: in_combinations_j)
qed

lemma inj_digits: "inj digits"
proof (rule injI)
  fix x y assume "digits x = digits y"
  then show "x = y" by (cases x; cases y) simp
qed

lemma length_4_conv: "length xs = 4 \<longleftrightarrow> (\<exists>a b c d. xs = [a, b, c, d])"
  by (simp add: numeral_eq_Suc length_Suc_conv) blast

lemma digits_image:
  "digits ` set (all_combinations level)
     = {xs. length xs = 4 \<and> distinct xs \<and> set xs \<subseteq> {0..level - 1}}"
proof (intro set_eqI iffI)
  fix xs assume "xs \<in> digits ` set (all_combinations level)"
  then obtain x where x: "valid_combination level x" and xs: "xs = digits x"
    by (auto simp: in_all_combinations)
  then show "xs \<in> {xs. length xs = 4 \<and> distinct xs \<and> set xs \<subseteq> {0..level - 1}}"
    by (cases x) simp
next
  fix xs assume "xs \<in> {xs. length xs = 4 \<and> distinct xs \<and> set xs \<subseteq> {0..level - 1}}"
  then have len: "length xs = 4" and d: "distinct xs" and sub: "set xs \<subseteq> {0..level - 1}"
    by simp_all
  from len obtain a b c d where xs: "xs = [a, b, c, d]"
    unfolding length_4_conv by blast
  from d sub have "valid_combination level (DigitCombination a b c d)"
    by (simp add: xs)
  then have "DigitCombination a b c d \<in> set (all_combinations level)"
    by (simp only: in_all_combinations)
  moreover have "digits (DigitCombination a b c d) = xs" by (simp add: xs)
  ultimately show "xs \<in> digits ` set (all_combinations level)"
    by (metis imageI)
qed

lemma length_all_combinations_card:
  "length (all_combinations level)
     = card {xs. length xs = 4 \<and> distinct xs \<and> set xs \<subseteq> {0..level - 1}}"
proof -
  have "length (all_combinations level) = card (set (all_combinations level))"
    by (simp add: distinct_card distinct_all_combinations)
  also have "\<dots> = card (digits ` set (all_combinations level))"
    by (rule card_image [symmetric]) (rule inj_on_subset [OF inj_digits subset_UNIV])
  finally show ?thesis by (simp only: digits_image)
qed

lemma prod_last_four: "\<Prod>{m + 1..m + 4} = (m + 1) * (m + 2) * (m + 3) * (m + (4::nat))"
proof -
  have "{m + 1..m + 4} = {m + 1, m + 2, m + 3, m + 4}" by auto
  then have "\<Prod>{m + 1..m + 4} = (m + 1) * ((m + 2) * ((m + 3) * (m + 4)))" by simp
  then show ?thesis by (simp only: mult.assoc)
qed

lemma length_all_combinations_ge_4:
  assumes "4 \<le> level"
  shows "int (length (all_combinations level))
           = level * (level - 1) * (level - 2) * (level - 3)"
proof -
  define m where "m = nat (level - 4)"
  with assms have level: "level = int m + 4" by simp
  have cardA: "card {0..level - 1} = m + 4" by (simp add: level)
  have "length (all_combinations level) = \<Prod>{card {0..level - 1} - 4 + 1..card {0..level - 1}}"
    unfolding length_all_combinations_card
    by (rule card_lists_distinct_length_eq) (simp_all add: level)
  also have "\<dots> = \<Prod>{m + 1..m + 4}" by (simp only: cardA) simp
  finally have "length (all_combinations level) = (m + 1) * (m + 2) * (m + 3) * (m + 4)"
    by (simp only: prod_last_four)
  then show ?thesis by (simp add: level algebra_simps)
qed

lemma length_all_combinations_lt_4:
  assumes "level < 4"
  shows "length (all_combinations level) = 0"
proof -
  have "{xs. length xs = 4 \<and> distinct xs \<and> set xs \<subseteq> {0..level - 1}} = {}"
  proof (rule ccontr)
    assume "{xs. length xs = 4 \<and> distinct xs \<and> set xs \<subseteq> {0..level - 1}} \<noteq> {}"
    then obtain xs where len: "length xs = 4" and d: "distinct xs"
      and sub: "set xs \<subseteq> {0..level - 1}" by auto
    from d have "card (set xs) = length xs" by (rule distinct_card)
    moreover have "card (set xs) \<le> card {0..level - 1}"
      by (rule card_mono) (simp, rule sub)
    moreover from assms have "card {0..level - 1} < 4" by simp
    ultimately show False using len by simp
  qed
  then show ?thesis by (simp only: length_all_combinations_card card.empty)
qed

lemma length_all_combinations:
  assumes "0 \<le> level"
  shows "int (length (all_combinations level))
           = level * (level - 1) * (level - 2) * (level - 3)"
proof (cases "4 \<le> level")
  case True
  then show ?thesis by (rule length_all_combinations_ge_4)
next
  case False
  with assms have "level = 0 \<or> level = 1 \<or> level = 2 \<or> level = 3" by arith
  then have "level * (level - 1) * (level - 2) * (level - 3) = 0" by auto
  moreover from False have "length (all_combinations level) = 0"
    by (simp add: length_all_combinations_lt_4)
  ultimately show ?thesis by simp
qed


section \<open>Properties of random selection\<close>

lemma unat_size_minus_1:
  assumes "0 < n" and "n < 2 ^ 64"
  shows "unat (of_nat n - 1 :: size_type) = n - 1"
proof -
  from assms have n: "unat (of_nat n :: size_type) = n" by (simp add: unat_of_nat)
  with assms(1) have "(of_nat n :: size_type) \<noteq> 0" by (metis unat_0 less_numeral_extra(3))
  then have "unat (of_nat n - 1 :: size_type) = unat (of_nat n :: size_type) - 1"
    by (rule unat_minus_one)
  with n show ?thesis by simp
qed

lemma dis_eq:
  assumes "combinations \<noteq> []" and "length combinations < 2 ^ 64"
  shows "dis combinations d
           = (if unat d < length combinations then 1 / real (length combinations) else 0)"
proof -
  from assms have u: "unat (of_nat (length combinations) - 1 :: size_type) = length combinations - 1"
    by (simp add: unat_size_minus_1)
  from assms(1) have pos: "0 < length combinations" by simp
  then have "real (length combinations - 1) + 1 = real (length combinations)"
    by (cases "length combinations") simp_all
  moreover from pos have "unat d \<le> length combinations - 1 \<longleftrightarrow> unat d < length combinations"
    by arith
  ultimately show ?thesis
    by (simp add: dis_def uniform_int_distribution_def word_le_nat_alt u)
qed

section \<open>Properties of the input loops\<close>

lemma getDifficultyLevel_loop_range:
  assumes "getDifficultyLevel_loop cin level = Some r"
  shows "4 \<le> fst r \<and> fst r \<le> 10 \<and> \<not> fail (snd r)"
proof (rule getDifficultyLevel_loop.raw_induct
    [where P = "\<lambda>cin level r. 4 \<le> fst r \<and> fst r \<le> 10 \<and> \<not> fail (snd r)", OF _ assms])
  fix loop :: "istream \<Rightarrow> int \<Rightarrow> (int \<times> istream) option" and cin level r
  assume IH: "\<And>cin level r. loop cin level = Some r \<Longrightarrow> 4 \<le> fst r \<and> fst r \<le> 10 \<and> \<not> fail (snd r)"
    and body: "(if fail cin \<or> level < 4 \<or> 10 < level
                then case extract_int (ignore_line (clear cin)) level of
                       (cin', level') \<Rightarrow> loop cin' level'
                else Some (level, cin)) = Some r"
  show "4 \<le> fst r \<and> fst r \<le> 10 \<and> \<not> fail (snd r)"
  proof (cases "fail cin \<or> level < 4 \<or> 10 < level")
    case True
    obtain cin' level' where step: "extract_int (ignore_line (clear cin)) level = (cin', level')"
      by (cases "extract_int (ignore_line (clear cin)) level")
    with True body have "loop cin' level' = Some r" by simp
    then show ?thesis by (rule IH)
  next
    case False
    with body show ?thesis by auto
  qed
qed

lemma getDifficultyLevel_loop_step:
  "rejected (cin, level) \<Longrightarrow>
   getDifficultyLevel_loop cin level
     = getDifficultyLevel_loop (fst (reprompt (cin, level))) (snd (reprompt (cin, level)))"
  by (subst getDifficultyLevel_loop.simps) (simp add: rejected_def reprompt_def split: prod.split)

lemma getDifficultyLevel_loop_stop:
  "\<not> rejected (cin, level) \<Longrightarrow> getDifficultyLevel_loop cin level = Some (level, cin)"
  by (subst getDifficultyLevel_loop.simps) (simp add: rejected_def)

lemma getDifficultyLevel_loop_returns:
  "\<not> rejected ((reprompt ^^ n) s) \<Longrightarrow> getDifficultyLevel_loop (fst s) (snd s) \<noteq> None"
proof (induction n arbitrary: s)
  case 0
  then show ?case using getDifficultyLevel_loop_stop [of "fst s" "snd s"] by simp
next
  case (Suc n)
  show ?case
  proof (cases "rejected s")
    case False
    then show ?thesis using getDifficultyLevel_loop_stop [of "fst s" "snd s"] by simp
  next
    case True
    from Suc.prems have "\<not> rejected ((reprompt ^^ n) (reprompt s))"
      by (simp add: funpow_swap1)
    then have "getDifficultyLevel_loop (fst (reprompt s)) (snd (reprompt s)) \<noteq> None"
      by (rule Suc.IH)
    with True show ?thesis
      using getDifficultyLevel_loop_step [of "fst s" "snd s"] by simp
  qed
qed

lemma getDifficultyLevel_loop_accepted:
  assumes "getDifficultyLevel_loop cin level = Some r"
  shows "\<exists>n. \<not> rejected ((reprompt ^^ n) (cin, level))"
proof (rule getDifficultyLevel_loop.raw_induct
    [where P = "\<lambda>cin level r. \<exists>n. \<not> rejected ((reprompt ^^ n) (cin, level))", OF _ assms])
  fix loop :: "istream \<Rightarrow> int \<Rightarrow> (int \<times> istream) option" and cin level r
  assume IH: "\<And>cin level r. loop cin level = Some r
                \<Longrightarrow> \<exists>n. \<not> rejected ((reprompt ^^ n) (cin, level))"
    and body: "(if fail cin \<or> level < 4 \<or> 10 < level
                then case extract_int (ignore_line (clear cin)) level of
                       (cin', level') \<Rightarrow> loop cin' level'
                else Some (level, cin)) = Some r"
  show "\<exists>n. \<not> rejected ((reprompt ^^ n) (cin, level))"
  proof (cases "rejected (cin, level)")
    case False
    then have "\<not> rejected ((reprompt ^^ 0) (cin, level))" by simp
    then show ?thesis by blast
  next
    case True
    obtain cin' level' where step: "reprompt (cin, level) = (cin', level')"
      by (cases "reprompt (cin, level)")
    with True body have "loop cin' level' = Some r"
      by (simp add: rejected_def reprompt_def)
    then obtain n where "\<not> rejected ((reprompt ^^ n) (cin', level'))"
      using IH by blast
    then have "\<not> rejected ((reprompt ^^ Suc n) (cin, level))"
      by (simp add: funpow_swap1 step)
    then show ?thesis by blast
  qed
qed

lemma getDifficultyLevel_returns_iff:
  "getDifficultyLevel cin \<noteq> None \<longleftrightarrow> (\<exists>n. \<not> rejected ((reprompt ^^ n) (extract_int cin 0)))"
proof -
  obtain cin' level where first: "extract_int cin 0 = (cin', level)"
    by (cases "extract_int cin 0")
  show ?thesis
    using getDifficultyLevel_loop_returns [of _ "(cin', level)"]
      getDifficultyLevel_loop_accepted [of cin' level]
    by (auto simp: getDifficultyLevel_def first)
qed

lemma convert_eq:
  assumes "4 \<le> length input"
  shows "convert input
           = Inr (DigitCombination (char_value (input ! 0) - 48) (char_value (input ! 1) - 48)
                    (char_value (input ! 2) - 48) (char_value (input ! 3) - 48))"
proof -
  from assms have "string_at input 0 = Inr (char_value (input ! 0))"
    "string_at input 1 = Inr (char_value (input ! 1))"
    "string_at input 2 = Inr (char_value (input ! 2))"
    "string_at input 3 = Inr (char_value (input ! 3))"
    by (auto simp: string_at_def)
  then show ?thesis by (simp add: convert_def upt_0_4)
qed

text \<open>
  When the loop returns, it has appended to the guesses shown before at least one
  guess, each with its score against the secret, and the last one is the secret.
\<close>

lemma humanPlayer_loop_ends:
  assumes "humanPlayer_loop secretCode cin shown = Some res"
  shows "case res of Inl e \<Rightarrow> True
         | Inr r \<Rightarrow> \<exists>new. fst r = shown @ new \<and> new \<noteq> [] \<and> fst (last new) = secretCode
                    \<and> (\<forall>(g, s) \<in> set new. s = calculateScore g secretCode)"
proof (rule humanPlayer_loop.raw_induct
    [where P = "\<lambda>secretCode cin shown res. case res of Inl e \<Rightarrow> True
         | Inr r \<Rightarrow> \<exists>new. fst r = shown @ new \<and> new \<noteq> [] \<and> fst (last new) = secretCode
                    \<and> (\<forall>(g, s) \<in> set new. s = calculateScore g secretCode)", OF _ assms])
  fix loop :: "DigitCombination \<Rightarrow> istream \<Rightarrow> (DigitCombination \<times> Score) list
     \<Rightarrow> (error + (DigitCombination \<times> Score) list \<times> istream) option"
    and secretCode cin shown res
  assume IH: "\<And>secretCode cin shown res. loop secretCode cin shown = Some res \<Longrightarrow>
         (case res of Inl e \<Rightarrow> True
          | Inr r \<Rightarrow> \<exists>new. fst r = shown @ new \<and> new \<noteq> [] \<and> fst (last new) = secretCode
                    \<and> (\<forall>(g, s) \<in> set new. s = calculateScore g secretCode))"
    and body: "(case extract_string cin of
        (cin', input) \<Rightarrow>
          (case convert input of
             Inl e \<Rightarrow> Some (Inl e)
           | Inr playerGuess \<Rightarrow>
               let score = calculateScore playerGuess secretCode;
                   shown' = shown @ [(playerGuess, score)]
               in if right_position score < 4
                  then loop secretCode cin' shown'
                  else Some (Inr (shown', cin')))) = Some res"
  let ?goal = "case res of Inl e \<Rightarrow> True
         | Inr r \<Rightarrow> \<exists>new. fst r = shown @ new \<and> new \<noteq> [] \<and> fst (last new) = secretCode
                    \<and> (\<forall>(g, s) \<in> set new. s = calculateScore g secretCode)"
  obtain cin' input where ex: "extract_string cin = (cin', input)"
    by (cases "extract_string cin")
  show ?goal
  proof (cases "convert input")
    case (Inl e)
    with body ex show ?thesis by auto
  next
    case (Inr playerGuess)
    let ?turn = "(playerGuess, calculateScore playerGuess secretCode)"
    show ?thesis
    proof (cases "right_position (calculateScore playerGuess secretCode) < 4")
      case True
      with body ex Inr have run: "loop secretCode cin' (shown @ [?turn]) = Some res"
        by (simp add: Let_def)
      show ?thesis
      proof (cases res)
        case (Inl e)
        then show ?thesis by simp
      next
        case r: (Inr r)
        from IH [OF run] r obtain new where new: "fst r = (shown @ [?turn]) @ new"
          "new \<noteq> []" "fst (last new) = secretCode"
          "\<forall>(g, s) \<in> set new. s = calculateScore g secretCode"
          by auto
        then have "fst r = shown @ (?turn # new) \<and> ?turn # new \<noteq> []
            \<and> fst (last (?turn # new)) = secretCode
            \<and> (\<forall>(g, s) \<in> set (?turn # new). s = calculateScore g secretCode)"
          by simp
        then show ?thesis unfolding r sum.case by (rule exI)
      qed
    next
      case False
      then have "playerGuess = secretCode"
        using right_position_4_iff [of playerGuess secretCode]
          right_position_le_4 [of playerGuess secretCode] by simp
      with body ex Inr False show ?thesis by (auto simp: Let_def)
    qed
  qed
qed

text \<open>
  One turn of the loop on an entry of at least four characters: the entry is converted
  and scored whatever its characters are, and the loop goes on or returns by the score
  alone.
\<close>

lemma humanPlayer_loop_step:
  assumes "extract_string cin = (cin', input)" and "4 \<le> length input"
  shows "humanPlayer_loop secretCode cin shown =
     (let playerGuess = DigitCombination (char_value (input ! 0) - 48)
            (char_value (input ! 1) - 48) (char_value (input ! 2) - 48)
            (char_value (input ! 3) - 48);
          score = calculateScore playerGuess secretCode;
          shown' = shown @ [(playerGuess, score)]
      in if right_position score < 4
         then humanPlayer_loop secretCode cin' shown'
         else Some (Inr (shown', cin')))"
  by (subst humanPlayer_loop.simps) (simp add: assms(1) convert_eq [OF assms(2)] Let_def)

lemma reprompt_at_eof:
  "reprompt (\<lparr>buffer = [], failbit = True, eofbit = True\<rparr>, level)
     = (\<lparr>buffer = [], failbit = True, eofbit = True\<rparr>, level)"
  by (simp add: reprompt_def clear_def ignore_line_def good_def extract_int_def)

lemma reprompt_at_eof_funpow:
  "(reprompt ^^ n) (\<lparr>buffer = [], failbit = True, eofbit = True\<rparr>, level)
     = (\<lparr>buffer = [], failbit = True, eofbit = True\<rparr>, level)"
  by (induction n) (simp_all add: reprompt_at_eof)

lemma getDifficultyLevel_eof: "getDifficultyLevel (stdin []) = None"
proof -
  have first: "extract_int (stdin []) 0 = (\<lparr>buffer = [], failbit = True, eofbit = True\<rparr>, 0)"
    by (simp add: stdin_def extract_int_def good_def)
  have "\<forall>n. rejected ((reprompt ^^ n) (extract_int (stdin []) 0))"
    by (simp add: first reprompt_at_eof_funpow rejected_def fail_def)
  then show ?thesis using getDifficultyLevel_returns_iff [of "stdin []"] by blast
qed

section \<open>Scoring claims\<close>

text \<open>
  C4. Scoring a combination against itself gives \<open>right_position = 4\<close> and
  \<open>wrong_position = 0\<close>, for every combination.
\<close>

theorem calculateScore_self:
  "calculateScore code code = \<lparr>right_position = 4, wrong_position = 0\<rparr>"
  by (simp add: calculateScore_eq hit_def)

text \<open>
  C3. For combinations whose digits are pairwise distinct, \<open>calculateScore\<close> returns the
  reference score of the specification: positional matches first, then the remaining
  guess digits that occur in the code at a position not matched yet, each position of
  the code used at most once.
\<close>

theorem calculateScore_is_reference_score:
  assumes "distinct_digits guess" and "distinct_digits code"
  shows "calculateScore guess code = reference_score guess code"
  using reference_score_eq [OF assms(1), of code] by simp

theorem calculateScore_is_reference_score_witness:
  "distinct_digits (DigitCombination 1 2 3 4) \<and> distinct_digits (DigitCombination 2 1 3 6)
   \<and> calculateScore (DigitCombination 1 2 3 4) (DigitCombination 2 1 3 6)
       = reference_score (DigitCombination 1 2 3 4) (DigitCombination 2 1 3 6)
   \<and> reference_score (DigitCombination 1 2 3 4) (DigitCombination 2 1 3 6)
       = \<lparr>right_position = 1, wrong_position = 2\<rparr>"
proof -
  have g: "distinct_digits (DigitCombination 1 2 3 4)" by simp
  have c: "distinct_digits (DigitCombination 2 1 3 6)" by simp
  have v: "reference_score (DigitCombination 1 2 3 4) (DigitCombination 2 1 3 6)
             = \<lparr>right_position = 1, wrong_position = 2\<rparr>"
    by code_simp
  from g c v calculateScore_is_reference_score [OF g c] show ?thesis by blast
qed

text \<open>
  The distinctness of the guess digits is needed: with a repeated guess digit the code
  counts a digit of the secret twice, the reference only once.
\<close>

lemma calculateScore_repeated_digit:
  "calculateScore (DigitCombination 1 1 2 3) (DigitCombination 1 4 5 6)
     = \<lparr>right_position = 1, wrong_position = 1\<rparr>
   \<and> reference_score (DigitCombination 1 1 2 3) (DigitCombination 1 4 5 6)
     = \<lparr>right_position = 1, wrong_position = 0\<rparr>"
  by code_simp


text \<open>
  C10. Both counts of a score are non-negative and their sum is at most 4: a position
  of the guess adds to \<open>right_position\<close> or to \<open>wrong_position\<close>, never to both.
\<close>

theorem calculateScore_bounds:
  "0 \<le> right_position (calculateScore guess code)
   \<and> 0 \<le> wrong_position (calculateScore guess code)
   \<and> right_position (calculateScore guess code)
       + wrong_position (calculateScore guess code) \<le> 4"
  using length_filter_split [of "hit guess code" "[0..<4]" "present guess code"]
  by (simp add: calculateScore_eq)

section \<open>Filtering claims\<close>

text \<open>
  C2. \<open>filterCombinations\<close> leaves exactly the candidates whose score against the guess
  equals the observed score, in their original order: the result is the list filtered
  by that test.
\<close>

theorem filterCombinations_keeps_matching:
  "filterCombinations allCombinations guess score
     = filter (\<lambda>c. calculateScore guess c = score) allCombinations"
  by (rule filterCombinations_eq)

text \<open>
  C5. The list after \<open>filterCombinations\<close> is never longer than the list before.
\<close>

theorem filterCombinations_length:
  "length (filterCombinations allCombinations guess score) \<le> length allCombinations"
  by (simp add: filterCombinations_eq)

lemma performComputerMove_keeps_secret:
  "secret \<in> set cs \<Longrightarrow> reply = calculateScore guess secret \<Longrightarrow>
   secret \<in> set (snd (performComputerMove cs guess reply))"
  by (simp add: performComputerMove_def filterCombinations_eq)

lemma computerPlayer_keeps_secret:
  "secret \<in> set cs \<Longrightarrow> \<forall>(guess, reply) \<in> set turns. reply = calculateScore guess secret \<Longrightarrow>
   secret \<in> set (snd (computerPlayer cs turns))"
proof (induction turns arbitrary: cs)
  case Nil
  then show ?case by simp
next
  case (Cons turn turns)
  obtain guess reply where turn: "turn = (guess, reply)" by (cases turn)
  obtain flag cs' where move: "performComputerMove cs guess reply = (flag, cs')"
    by (cases "performComputerMove cs guess reply")
  from Cons.prems turn have "reply = calculateScore guess secret" by simp
  with Cons.prems(1) move have mem: "secret \<in> set cs'"
    using performComputerMove_keeps_secret [of secret cs reply guess] by simp
  from Cons.prems have "\<forall>(guess, reply) \<in> set turns. reply = calculateScore guess secret"
    by simp
  with Cons.IH [OF mem] have "secret \<in> set (snd (computerPlayer cs' turns))" .
  with mem show ?case by (auto simp: turn move)
qed

text \<open>
  C1. If the candidate list contains the secret and every reply of the user is the
  score of the guess against the secret, the candidate list contains the secret after
  every move of \<open>computerPlayer\<close>, that is, after every call of \<open>filterCombinations\<close>:
  the list reached after the first \<open>k\<close> turns contains it, for every \<open>k\<close>.
\<close>

theorem secret_stays_candidate:
  assumes "secret \<in> set combinations"
    and "\<forall>(guess, reply) \<in> set turns. reply = calculateScore guess secret"
  shows "\<forall>k \<le> length turns. secret \<in> set (snd (computerPlayer combinations (take k turns)))"
proof (intro allI impI)
  fix k
  have "set (take k turns) \<subseteq> set turns" by (rule set_take_subset)
  with assms(2) have "\<forall>(guess, reply) \<in> set (take k turns). reply = calculateScore guess secret"
    by blast
  with assms(1) show "secret \<in> set (snd (computerPlayer combinations (take k turns)))"
    by (rule computerPlayer_keeps_secret)
qed

theorem secret_stays_candidate_witness:
  "DigitCombination 1 0 3 2
     \<in> set [DigitCombination 0 1 2 3, DigitCombination 1 0 2 3, DigitCombination 1 0 3 2]
   \<and> calculateScore (DigitCombination 0 1 2 3) (DigitCombination 1 0 3 2)
       = \<lparr>right_position = 0, wrong_position = 4\<rparr>
   \<and> DigitCombination 1 0 3 2
       \<in> set (snd (computerPlayer
           [DigitCombination 0 1 2 3, DigitCombination 1 0 2 3, DigitCombination 1 0 3 2]
           (take 1 [(DigitCombination 0 1 2 3, \<lparr>right_position = 0, wrong_position = 4\<rparr>)])))"
proof -
  have mem: "DigitCombination 1 0 3 2
     \<in> set [DigitCombination 0 1 2 3, DigitCombination 1 0 2 3, DigitCombination 1 0 3 2]"
    by simp
  have sc: "calculateScore (DigitCombination 0 1 2 3) (DigitCombination 1 0 3 2)
              = \<lparr>right_position = 0, wrong_position = 4\<rparr>"
    by code_simp
  have truthful:
    "\<forall>(guess, reply) \<in> set [(DigitCombination 0 1 2 3, \<lparr>right_position = 0, wrong_position = 4\<rparr>)].
       reply = calculateScore guess (DigitCombination 1 0 3 2)"
    by (simp add: sc)
  have "1 \<le> length [(DigitCombination 0 1 2 3, \<lparr>right_position = 0, wrong_position = 4\<rparr>)]"
    by simp
  with secret_stays_candidate [OF mem truthful]
  have "DigitCombination 1 0 3 2
       \<in> set (snd (computerPlayer
           [DigitCombination 0 1 2 3, DigitCombination 1 0 2 3, DigitCombination 1 0 3 2]
           (take 1 [(DigitCombination 0 1 2 3, \<lparr>right_position = 0, wrong_position = 4\<rparr>)])))"
    by blast
  with mem sc show ?thesis by blast
qed

section \<open>Generation claims\<close>



text \<open>
  A level whose combinations do not fit into a vector is outside what \<open>main\<close> passes;
  there \<open>push_back\<close> throws and no list is returned.
\<close>

lemma generateAllCombinations_too_large:
  assumes "capacity < 2 ^ 64"
  shows "generateAllCombinations capacity 100000 = Inl BadAlloc"
proof -
  have "int (length (all_combinations 100000)) = 100000 * 99999 * 99998 * 99997"
    using length_all_combinations [of 100000] by simp
  then have "(2::nat) ^ 64 \<le> length (all_combinations 100000)" by simp
  with assms show ?thesis by (simp add: generateAllCombinations_fits fits_def)
qed

section \<open>Selection claims\<close>

text \<open>
  C8. For a non-empty candidate list, every value that \<open>dis(gen)\<close> can produce is an
  index within bounds, has probability one over the number of candidates, and selects
  an element of the list; and every position of the list is the index of one such
  value. So the selection is uniform among the candidates. The bound on the length
  holds for every vector, whose size is a \<open>size_type\<close>.
\<close>

theorem selectRandomCombination_uniform:
  assumes "combinations \<noteq> []" and "length combinations < 2 ^ 64"
  shows "(0 < dis combinations drawn \<longrightarrow>
            unat drawn < length combinations
            \<and> dis combinations drawn = 1 / real (length combinations)
            \<and> selectRandomCombination combinations drawn = Some (combinations ! unat drawn)
            \<and> combinations ! unat drawn \<in> set combinations)
       \<and> (i < length combinations \<longrightarrow>
            unat (of_nat i :: size_type) = i
            \<and> dis combinations (of_nat i) = 1 / real (length combinations))"
proof (intro conjI impI)
  assume "0 < dis combinations drawn"
  then show lt: "unat drawn < length combinations"
    by (simp add: dis_eq [OF assms] split: if_splits)
  then show "dis combinations drawn = 1 / real (length combinations)"
    by (simp add: dis_eq [OF assms])
  from lt show "selectRandomCombination combinations drawn = Some (combinations ! unat drawn)"
    by (simp add: selectRandomCombination_def subscript_def)
  from lt show "combinations ! unat drawn \<in> set combinations"
    by simp
next
  assume i: "i < length combinations"
  with assms(2) show u: "unat (of_nat i :: size_type) = i" by (simp add: unat_of_nat)
  from i u show "dis combinations (of_nat i) = 1 / real (length combinations)"
    by (simp add: dis_eq [OF assms])
qed

theorem selectRandomCombination_uniform_witness:
  "[DigitCombination 0 1 2 3, DigitCombination 3 2 1 0] \<noteq> []
   \<and> length [DigitCombination 0 1 2 3, DigitCombination 3 2 1 0] < 2 ^ 64
   \<and> (1::nat) < length [DigitCombination 0 1 2 3, DigitCombination 3 2 1 0]
   \<and> 0 < dis [DigitCombination 0 1 2 3, DigitCombination 3 2 1 0] 1
   \<and> dis [DigitCombination 0 1 2 3, DigitCombination 3 2 1 0] 1 = 1 / 2
   \<and> selectRandomCombination [DigitCombination 0 1 2 3, DigitCombination 3 2 1 0] 1
       = Some (DigitCombination 3 2 1 0)"
proof -
  have a: "[DigitCombination 0 1 2 3, DigitCombination 3 2 1 0] \<noteq> []" by simp
  have b: "length [DigitCombination 0 1 2 3, DigitCombination 3 2 1 0] < 2 ^ 64" by simp
  have c: "(1::nat) < length [DigitCombination 0 1 2 3, DigitCombination 3 2 1 0]" by simp
  from selectRandomCombination_uniform [OF a b, of 1 1] c show ?thesis by simp
qed

text \<open>
  On an empty list the subtraction wraps around, every value can be drawn and the
  subscript is out of range.
\<close>

lemma selectRandomCombination_empty: "selectRandomCombination [] drawn = None"
  by (simp add: selectRandomCombination_def subscript_def)

section \<open>Input claims\<close>

text \<open>
  C7 does not hold as stated. \<open>menu\<close> returns a negative number that is entered,
  \<open>humanPlayer\<close> scores an entry that is no combination of the level like any other
  guess, and \<open>getDifficultyLevel\<close> does not return when the input ends.
\<close>

theorem input_routines_not_validating:
  "menu (stdin [''-1'']) 0
     = Some (- 1, \<lparr>buffer = [newline], failbit = False, eofbit = False\<rparr>)
   \<and> humanPlayer 4 [DigitCombination 0 1 2 3] 0 (stdin [''9999'', ''0123''])
     = Some (Inr ([(DigitCombination 9 9 9 9, \<lparr>right_position = 0, wrong_position = 0\<rparr>),
                   (DigitCombination 0 1 2 3, \<lparr>right_position = 4, wrong_position = 0\<rparr>)],
                  \<lparr>buffer = [newline], failbit = False, eofbit = False\<rparr>))
   \<and> \<not> valid_combination 4 (DigitCombination 9 9 9 9)
   \<and> getDifficultyLevel (stdin []) = None"
proof -
  have "menu (stdin [''-1'']) 0
     = Some (- 1, \<lparr>buffer = [newline], failbit = False, eofbit = False\<rparr>)"
    by code_simp
  moreover have "humanPlayer 4 [DigitCombination 0 1 2 3] 0 (stdin [''9999'', ''0123''])
     = Some (Inr ([(DigitCombination 9 9 9 9, \<lparr>right_position = 0, wrong_position = 0\<rparr>),
                   (DigitCombination 0 1 2 3, \<lparr>right_position = 4, wrong_position = 0\<rparr>)],
                  \<lparr>buffer = [newline], failbit = False, eofbit = False\<rparr>))"
    by code_simp
  moreover have "\<not> valid_combination 4 (DigitCombination 9 9 9 9)" by simp
  ultimately show ?thesis using getDifficultyLevel_eof by blast
qed

text \<open>
  C7, as the code has it, without \<open>menu\<close>. Whenever \<open>getDifficultyLevel\<close> returns, the
  level is between 4 and 10, and it returns exactly when the first entry or one of the
  re-prompts is not rejected. \<open>humanPlayer\<close> does not validate the guess: the first four
  characters of an entry of at least four characters are converted by subtracting
  \<open>'0'\<close>, whatever they are; the converted guess is scored against the secret and shown,
  and the loop goes on with the next entry unless the score has four right positions.
  When \<open>humanPlayer\<close> returns, every guess shown carries its score against the secret and
  the last guess is the secret.
\<close>

theorem input_routines_as_coded:
  "(getDifficultyLevel cin = Some (level, cin') \<longrightarrow> 4 \<le> level \<and> level \<le> 10)
   \<and> ((getDifficultyLevel cin \<noteq> None)
        = (\<exists>n. \<not> rejected ((reprompt ^^ n) (extract_int cin 0))))
   \<and> (4 \<le> length input \<longrightarrow>
        convert input
          = Inr (DigitCombination (char_value (input ! 0) - 48) (char_value (input ! 1) - 48)
                   (char_value (input ! 2) - 48) (char_value (input ! 3) - 48)))
   \<and> (extract_string cin_turn = (cin_turn', input) \<and> 4 \<le> length input \<longrightarrow>
        humanPlayer_loop secretCode cin_turn shown_before =
          (let playerGuess = DigitCombination (char_value (input ! 0) - 48)
                 (char_value (input ! 1) - 48) (char_value (input ! 2) - 48)
                 (char_value (input ! 3) - 48);
               score = calculateScore playerGuess secretCode;
               shown' = shown_before @ [(playerGuess, score)]
           in if right_position score < 4
              then humanPlayer_loop secretCode cin_turn' shown'
              else Some (Inr (shown', cin_turn'))))
   \<and> (humanPlayer lvl combinations drawn cin_game = Some (Inr (shown, cin_game')) \<longrightarrow>
        shown \<noteq> []
        \<and> selectRandomCombination combinations drawn = Some (fst (last shown))
        \<and> (\<forall>(g, s) \<in> set shown. s = calculateScore g (fst (last shown))))"
proof (intro conjI impI)
  assume "getDifficultyLevel cin = Some (level, cin')"
  then obtain c l where "getDifficultyLevel_loop c l = Some (level, cin')"
    by (auto simp: getDifficultyLevel_def split: prod.splits)
  from getDifficultyLevel_loop_range [OF this] show "4 \<le> level" and "level \<le> 10"
    by simp_all
next
  show "(getDifficultyLevel cin \<noteq> None)
        = (\<exists>n. \<not> rejected ((reprompt ^^ n) (extract_int cin 0)))"
    by (rule getDifficultyLevel_returns_iff)
next
  assume "4 \<le> length input"
  then show "convert input
          = Inr (DigitCombination (char_value (input ! 0) - 48) (char_value (input ! 1) - 48)
                   (char_value (input ! 2) - 48) (char_value (input ! 3) - 48))"
    by (rule convert_eq)
next
  assume "extract_string cin_turn = (cin_turn', input) \<and> 4 \<le> length input"
  then have "extract_string cin_turn = (cin_turn', input)" and "4 \<le> length input" by simp_all
  then show "humanPlayer_loop secretCode cin_turn shown_before =
          (let playerGuess = DigitCombination (char_value (input ! 0) - 48)
                 (char_value (input ! 1) - 48) (char_value (input ! 2) - 48)
                 (char_value (input ! 3) - 48);
               score = calculateScore playerGuess secretCode;
               shown' = shown_before @ [(playerGuess, score)]
           in if right_position score < 4
              then humanPlayer_loop secretCode cin_turn' shown'
              else Some (Inr (shown', cin_turn')))"
    by (rule humanPlayer_loop_step)
next
  assume run: "humanPlayer lvl combinations drawn cin_game = Some (Inr (shown, cin_game'))"
  then obtain secret where secret: "selectRandomCombination combinations drawn = Some secret"
    and loop: "humanPlayer_loop secret cin_game [] = Some (Inr (shown, cin_game'))"
    by (auto simp: humanPlayer_def split: option.splits)
  from humanPlayer_loop_ends [OF loop]
  have ends: "shown \<noteq> [] \<and> fst (last shown) = secret
      \<and> (\<forall>(g, s) \<in> set shown. s = calculateScore g secret)"
    by simp
  from ends show "shown \<noteq> []" by simp
  from ends secret show "selectRandomCombination combinations drawn = Some (fst (last shown))"
    by simp
  from ends show "\<forall>(g, s) \<in> set shown. s = calculateScore g (fst (last shown))"
    by simp
qed

theorem input_routines_as_coded_witness:
  "getDifficultyLevel (stdin [''3'', ''abc'', ''7''])
     = Some (7, \<lparr>buffer = [newline], failbit = False, eofbit = False\<rparr>)
   \<and> (4::int) \<le> 7 \<and> (7::int) \<le> 10
   \<and> \<not> rejected ((reprompt ^^ 2) (extract_int (stdin [''3'', ''abc'', ''7'']) 0))
   \<and> 4 \<le> length ''9999''
   \<and> convert ''9999'' = Inr (DigitCombination 9 9 9 9)
   \<and> extract_string (stdin [''9999'', ''0123''])
     = (\<lparr>buffer = newline # ''0123'' @ [newline], failbit = False, eofbit = False\<rparr>, ''9999'')
   \<and> humanPlayer_loop (DigitCombination 0 1 2 3) (stdin [''9999'', ''0123'']) []
     = humanPlayer_loop (DigitCombination 0 1 2 3)
         \<lparr>buffer = newline # ''0123'' @ [newline], failbit = False, eofbit = False\<rparr>
         [(DigitCombination 9 9 9 9, \<lparr>right_position = 0, wrong_position = 0\<rparr>)]
   \<and> humanPlayer 4 [DigitCombination 0 1 2 3] 0 (stdin [''9999'', ''0123''])
     = Some (Inr ([(DigitCombination 9 9 9 9, \<lparr>right_position = 0, wrong_position = 0\<rparr>),
                   (DigitCombination 0 1 2 3, \<lparr>right_position = 4, wrong_position = 0\<rparr>)],
                  \<lparr>buffer = [newline], failbit = False, eofbit = False\<rparr>))
   \<and> selectRandomCombination [DigitCombination 0 1 2 3] 0 = Some (DigitCombination 0 1 2 3)"
proof -
  let ?left = "\<lparr>buffer = [newline], failbit = False, eofbit = False\<rparr>"
  let ?next = "\<lparr>buffer = newline # ''0123'' @ [newline], failbit = False, eofbit = False\<rparr>"
  let ?shown = "[(DigitCombination 9 9 9 9, \<lparr>right_position = 0, wrong_position = 0\<rparr>),
                 (DigitCombination 0 1 2 3, \<lparr>right_position = 4, wrong_position = 0\<rparr>)]"
  have lvl: "getDifficultyLevel (stdin [''3'', ''abc'', ''7'']) = Some (7, ?left)"
    by code_simp
  have acc: "\<not> rejected ((reprompt ^^ 2) (extract_int (stdin [''3'', ''abc'', ''7'']) 0))"
    by code_simp
  have len: "4 \<le> length ''9999''" by simp
  have conv: "convert ''9999'' = Inr (DigitCombination 9 9 9 9)" by code_simp
  have ex: "extract_string (stdin [''9999'', ''0123'']) = (?next, ''9999'')" by code_simp
  have guess: "DigitCombination (char_value (''9999'' ! 0) - 48) (char_value (''9999'' ! 1) - 48)
      (char_value (''9999'' ! 2) - 48) (char_value (''9999'' ! 3) - 48) = DigitCombination 9 9 9 9"
    by code_simp
  have score: "calculateScore (DigitCombination 9 9 9 9) (DigitCombination 0 1 2 3)
      = \<lparr>right_position = 0, wrong_position = 0\<rparr>"
    by code_simp
  have play: "humanPlayer 4 [DigitCombination 0 1 2 3] 0 (stdin [''9999'', ''0123''])
                = Some (Inr (?shown, ?left))"
    by code_simp
  note inst = input_routines_as_coded [where cin = "stdin [''3'', ''abc'', ''7'']"
      and level = 7 and cin' = ?left and input = "''9999''"
      and cin_turn = "stdin [''9999'', ''0123'']" and cin_turn' = ?next
      and secretCode = "DigitCombination 0 1 2 3" and shown_before = "[]"
      and lvl = 4 and combinations = "[DigitCombination 0 1 2 3]" and drawn = 0
      and cin_game = "stdin [''9999'', ''0123'']" and shown = ?shown and cin_game' = ?left]
  from inst lvl have range: "(4::int) \<le> 7 \<and> (7::int) \<le> 10" by blast
  from inst ex len
  have "humanPlayer_loop (DigitCombination 0 1 2 3) (stdin [''9999'', ''0123'']) [] =
          (let playerGuess = DigitCombination (char_value (''9999'' ! 0) - 48)
                 (char_value (''9999'' ! 1) - 48) (char_value (''9999'' ! 2) - 48)
                 (char_value (''9999'' ! 3) - 48);
               score = calculateScore playerGuess (DigitCombination 0 1 2 3);
               shown' = [] @ [(playerGuess, score)]
           in if right_position score < 4
              then humanPlayer_loop (DigitCombination 0 1 2 3) ?next shown'
              else Some (Inr (shown', ?next)))"
    by blast
  then have step: "humanPlayer_loop (DigitCombination 0 1 2 3) (stdin [''9999'', ''0123'']) []
     = humanPlayer_loop (DigitCombination 0 1 2 3) ?next
         [(DigitCombination 9 9 9 9, \<lparr>right_position = 0, wrong_position = 0\<rparr>)]"
    unfolding guess Let_def score by simp
  from inst play have sel: "selectRandomCombination [DigitCombination 0 1 2 3] 0
      = Some (fst (last ?shown))" by blast
  then have "selectRandomCombination [DigitCombination 0 1 2 3] 0
      = Some (DigitCombination 0 1 2 3)" by simp
  with lvl range acc len conv ex step play show ?thesis by blast
qed

end
